theory Spec2Isabelle
  imports Main "HOL-Library.Char_ord" "HOL-Library.List_Lexorder" "HOL-Library.Multiset"
begin

section \<open>The CMS server of \<^verbatim>\<open>src/cms/server.js\<close>\<close>

text \<open>
  The server keeps two tables (users, posts) in SQLite, a session per client, two
  request counters per client and the content files it writes for Hugo. The model
  threads one record of all of that through every request. What the handlers cannot
  decide themselves (the clock, a failing database, a failing file system, bcrypt)
  is an explicit input of each request.

  Strings are lists of characters. \<open>toLowerCase\<close> is modelled on the ASCII range,
  where it maps \<open>A\<close>..\<open>Z\<close> to \<open>a\<close>..\<open>z\<close> and leaves every other character
  alone. A character beyond ASCII is outside \<open>[a-z0-9]\<close> before and after
  lower-casing, except the two code points whose lower case is an ASCII letter
  (U+0130, U+212A); titles with those are outside the model.
\<close>

subsection \<open>Strings\<close>

definition dquote :: char where
  "dquote = CHR 0x22"

definition newline :: char where
  "newline = CHR 0x0A"

definition toLowerCase_char :: "char \<Rightarrow> char" where
  "toLowerCase_char c =
     (if CHR ''A'' \<le> c \<and> c \<le> CHR ''Z'' then char_of (of_char c + (32::nat)) else c)"

definition toLowerCase :: "string \<Rightarrow> string" where
  "toLowerCase s = map toLowerCase_char s"

text \<open>The character class \<open>[a-z0-9]\<close> of the slug expression.\<close>

definition in_class :: "char \<Rightarrow> bool" where
  "in_class c \<longleftrightarrow> (CHR ''a'' \<le> c \<and> c \<le> CHR ''z'') \<or> (CHR ''0'' \<le> c \<and> c \<le> CHR ''9'')"

text \<open>
  \<^verbatim>\<open>s.replace(/[^a-z0-9]+/g, '-')\<close>: scanning from the left, a character of the class
  is copied; at a character outside it the match \<open>[^a-z0-9]+\<close> is greedy, takes the
  whole run, and is replaced by one hyphen; the scan goes on after the match.
\<close>

function replace_runs :: "string \<Rightarrow> string" where
  "replace_runs [] = []"
| "replace_runs (c # cs) =
     (if in_class c then c # replace_runs cs
      else CHR ''-'' # replace_runs (dropWhile (\<lambda>d. \<not> in_class d) cs))"
  by pat_completeness auto
termination
  by (relation "measure length") (auto simp: le_imp_less_Suc length_dropWhile_le)

text \<open>Line 148: \<^verbatim>\<open>title.toLowerCase().replace(/[^a-z0-9]+/g, '-')\<close>.\<close>

definition derive_slug :: "string \<Rightarrow> string" where
  "derive_slug title = replace_runs (toLowerCase title)"

subsection \<open>Tables, files and responses\<close>

text \<open>The two tables created at lines 48 to 60.\<close>

record user =
  user_id :: nat
  username :: string
  password :: string

record post =
  post_id :: nat
  post_title :: string
  post_content :: string
  post_date :: string
  post_slug :: string

text \<open>A row of \<^verbatim>\<open>SELECT id, title, date, slug FROM posts\<close>.\<close>

record listed =
  l_id :: nat
  l_title :: string
  l_date :: string
  l_slug :: string

datatype payload =
    Empty
  | Location string
  | Error_json string
  | Created_json nat string
  | Posts_json "listed list"
  | File_page string
  | Message string

record response =
  status :: nat
  payload :: payload

text \<open>
  Express: a response starts with status 200; \<open>res.status(n)\<close> sets the status,
  \<open>res.json\<close> and \<open>res.sendFile\<close> keep it, and \<open>res.redirect(url)\<close> with one
  argument sets it to 302 whatever it was before.
\<close>

definition res0 :: response where
  "res0 = \<lparr>status = 200, payload = Empty\<rparr>"

definition res_status :: "nat \<Rightarrow> response \<Rightarrow> response" where
  "res_status n r = r\<lparr>status := n\<rparr>"

definition res_json :: "payload \<Rightarrow> response \<Rightarrow> response" where
  "res_json j r = r\<lparr>payload := j\<rparr>"

definition res_sendFile :: "string \<Rightarrow> response \<Rightarrow> response" where
  "res_sendFile name r = r\<lparr>payload := File_page name\<rparr>"

definition res_redirect :: "string \<Rightarrow> response \<Rightarrow> response" where
  "res_redirect url r = r\<lparr>status := 302, payload := Location url\<rparr>"

text \<open>
  The state of the server: the tables, the content files by path (relative to the
  working directory), the user id stored in each session (\<open>req.session.userId\<close>, by
  session id), and the two rate limiters' counters by client address.
\<close>

record state =
  users :: "user list"
  posts :: "post list"
  files :: "string \<rightharpoonup> string"
  sessions :: "nat \<rightharpoonup> nat"
  general_hits :: "nat \<rightharpoonup> nat \<times> nat"
  login_hits :: "nat \<rightharpoonup> nat \<times> nat"

text \<open>
  What a request takes from outside: the clock in milliseconds, the string
  \<open>new Date().toISOString()\<close> returns, whether the database call of the request
  fails for a reason of its own (busy, I/O), whether \<open>mkdirSync\<close> or
  \<open>writeFileSync\<close> throws, and bcrypt's comparison of a password with a hash.
\<close>

record env =
  clock_ms :: nat
  now_iso :: string
  db_fault :: bool
  fs_fault :: bool
  bcrypt_compare :: "string \<Rightarrow> string \<Rightarrow> bool"

text \<open>
  The two fields each body is read for. A field is a string or missing
  (\<open>undefined\<close> in JavaScript); other JSON values are outside the model.
\<close>

record login_body =
  username_field :: "string option"
  password_field :: "string option"

record post_body =
  title_field :: "string option"
  content_field :: "string option"

datatype action =
    GetLogin
  | PostLogin login_body
  | GetLogout
  | GetDashboard
  | GetPosts
  | PostPosts post_body

record request =
  client :: nat
  sid :: nat
  action :: action

text \<open>\<open>!v\<close> for a field: true for \<open>undefined\<close> and for the empty string.\<close>

definition falsy :: "string option \<Rightarrow> bool" where
  "falsy v = (case v of None \<Rightarrow> True | Some s \<Rightarrow> s = [])"

text \<open>\<open>!req.session.userId\<close>: true for \<open>undefined\<close> and for 0.\<close>

definition falsy_id :: "nat option \<Rightarrow> bool" where
  "falsy_id u = (case u of None \<Rightarrow> True | Some n \<Rightarrow> n = 0)"

subsection \<open>The database\<close>

text \<open>
  \<^verbatim>\<open>SELECT * FROM users WHERE username = ?\<close> through \<open>db.get\<close>: the first row
  with that name; an \<open>undefined\<close> parameter is bound as NULL, which equals nothing.
\<close>

fun find_user :: "user list \<Rightarrow> string option \<Rightarrow> user option" where
  "find_user us None = None"
| "find_user [] (Some n) = None"
| "find_user (u # us) (Some n) = (if username u = n then Some u else find_user us (Some n))"

text \<open>
  \<open>id INTEGER PRIMARY KEY\<close>: SQLite gives a new row the largest id in the table
  plus one, and 1 in an empty table. \<open>this.lastID\<close> is that id.
\<close>

definition next_id :: "post list \<Rightarrow> nat" where
  "next_id rows = fold max (map post_id rows) 0 + 1"

text \<open>\<open>slug TEXT UNIQUE\<close>: an insert fails when a row has the same slug.\<close>

definition slug_taken :: "post list \<Rightarrow> string \<Rightarrow> bool" where
  "slug_taken rows s = (s \<in> set (map post_slug rows))"

text \<open>
  \<^verbatim>\<open>ORDER BY date DESC\<close> on a TEXT column: rows with a greater date string come
  first, strings compared character by character. SQL leaves the order of rows with
  equal dates open; the model keeps them in table order.
\<close>

fun insert_desc :: "listed \<Rightarrow> listed list \<Rightarrow> listed list" where
  "insert_desc p [] = [p]"
| "insert_desc p (q # qs) =
     (if l_date q < l_date p then p # q # qs else q # insert_desc p qs)"

definition order_by_date_desc :: "listed list \<Rightarrow> listed list" where
  "order_by_date_desc rows = foldr insert_desc (rev rows) []"

definition select_listed :: "post \<Rightarrow> listed" where
  "select_listed p =
     \<lparr>l_id = post_id p, l_title = post_title p, l_date = post_date p, l_slug = post_slug p\<rparr>"

subsection \<open>The handlers\<close>

text \<open>Lines 86 to 91: without a user id in the session, redirect and do not go on.\<close>

definition requireAuth :: "nat option \<Rightarrow> state \<Rightarrow> state \<times> response \<Rightarrow> state \<times> response" where
  "requireAuth userId s continue =
     (if falsy_id userId then (s, res_redirect ''/cms/login'' res0) else continue)"

text \<open>
  Lines 98 to 119. A failing \<open>db.get\<close> rejects the promise, and bcryptjs rejects
  when the password is not a string; both land in the \<open>catch\<close>.
\<close>

definition login_handler :: "env \<Rightarrow> nat \<Rightarrow> login_body \<Rightarrow> state \<Rightarrow> state \<times> response" where
  "login_handler e i b s =
     (if db_fault e then (s, res_redirect ''/cms/login?error=1'' (res_status 500 res0))
      else case find_user (users s) (username_field b) of
        None \<Rightarrow> (s, res_redirect ''/cms/login?error=1'' res0)
      | Some u \<Rightarrow>
          (case password_field b of
             None \<Rightarrow> (s, res_redirect ''/cms/login?error=1'' (res_status 500 res0))
           | Some pw \<Rightarrow>
               if \<not> bcrypt_compare e pw (password u)
               then (s, res_redirect ''/cms/login?error=1'' res0)
               else (s\<lparr>sessions := (sessions s)(i \<mapsto> user_id u)\<rparr>,
                     res_redirect ''/cms/dashboard'' res0)))"

text \<open>Lines 121 to 124.\<close>

definition logout_handler :: "nat \<Rightarrow> state \<Rightarrow> state \<times> response" where
  "logout_handler i s =
     (s\<lparr>sessions := (sessions s)(i := None)\<rparr>, res_redirect ''/cms/login'' res0)"

text \<open>Lines 130 to 138, after \<open>requireAuth\<close>.\<close>

definition list_posts_handler :: "env \<Rightarrow> state \<Rightarrow> state \<times> response" where
  "list_posts_handler e s =
     (if db_fault e then (s, res_json (Error_json ''Database error'') (res_status 500 res0))
      else (s, res_json (Posts_json (order_by_date_desc (map select_listed (posts s)))) res0))"

text \<open>The template of lines 160 to 166 and the path of line 168.\<close>

definition hugoContent :: "string \<Rightarrow> string \<Rightarrow> string \<Rightarrow> string" where
  "hugoContent title date content =
     ''---'' @ [newline] @
     ''title: '' @ [dquote] @ title @ [dquote] @ [newline] @
     ''date: '' @ date @ [newline] @
     ''draft: false'' @ [newline] @
     ''---'' @ [newline] @
     [newline] @
     content"

definition filePath :: "string \<Rightarrow> string" where
  "filePath slug = ''content/posts/'' @ slug @ ''.md''"

text \<open>
  Lines 140 to 178, after \<open>requireAuth\<close>. The insert fails on a fault of the
  database or on a slug that is taken, and then adds no row. A throwing file system
  call is modelled as throwing before anything is written.
\<close>

definition create_post_handler :: "env \<Rightarrow> post_body \<Rightarrow> state \<Rightarrow> state \<times> response" where
  "create_post_handler e b s =
     (if falsy (title_field b) \<or> falsy (content_field b)
      then (s, res_json (Error_json ''Title and content are required'') (res_status 400 res0))
      else
        let title = the (title_field b);
            content = the (content_field b);
            date = now_iso e;
            slug = derive_slug title
        in if db_fault e \<or> slug_taken (posts s) slug
           then (s, res_json (Error_json ''Database error'') (res_status 500 res0))
           else
             let lastID = next_id (posts s);
                 s1 = s\<lparr>posts := posts s @
                        [\<lparr>post_id = lastID, post_title = title, post_content = content,
                          post_date = date, post_slug = slug\<rparr>]\<rparr>
             in if fs_fault e
                then (s1, res_json (Error_json ''Error creating post file'') (res_status 500 res0))
                else (s1\<lparr>files := (files s1)(filePath slug \<mapsto> hugoContent title date content)\<rparr>,
                      res_json (Created_json lastID slug) res0))"

text \<open>The routes of lines 94 to 178, each with the middleware it is registered with.\<close>

definition route :: "env \<Rightarrow> request \<Rightarrow> state \<Rightarrow> state \<times> response" where
  "route e r s =
     (case action r of
        GetLogin \<Rightarrow> (s, res_sendFile ''login.html'' res0)
      | PostLogin b \<Rightarrow> login_handler e (sid r) b s
      | GetLogout \<Rightarrow> logout_handler (sid r) s
      | GetDashboard \<Rightarrow>
          requireAuth (sessions s (sid r)) s (s, res_sendFile ''dashboard.html'' res0)
      | GetPosts \<Rightarrow> requireAuth (sessions s (sid r)) s (list_posts_handler e s)
      | PostPosts b \<Rightarrow> requireAuth (sessions s (sid r)) s (create_post_handler e b s))"

subsection \<open>The rate limiters and the application\<close>

record rate_options =
  windowMs :: nat
  max_hits :: nat

text \<open>Lines 33 to 36 and 40 to 43.\<close>

definition limiter :: rate_options where
  "limiter = \<lparr>windowMs = 15 * 60 * 1000, max_hits = 100\<rparr>"

definition loginLimiter :: rate_options where
  "loginLimiter = \<lparr>windowMs = 60 * 60 * 1000, max_hits = 5\<rparr>"

text \<open>
  Modelled from the spec: the window counter behind \<open>rateLimit\<close>, which the source
  takes from the package express-rate-limit and which is not part of the repository's
  files. The spec (4.3) has a window counter keyed by client address and bucket, and
  a request beyond the bucket's limit within the window is rejected. The model is a
  fixed window: a client's first request opens a window of \<open>windowMs\<close>, each request
  in the window counts (a rejected one too), the request is let through while the
  count is at most \<open>max\<close>, and the first request after the window's end opens a new
  one. The counter of a client is \<open>(end of window, count)\<close>.
\<close>

definition rateLimit ::
  "rate_options \<Rightarrow> nat \<Rightarrow> nat \<Rightarrow> (nat \<rightharpoonup> nat \<times> nat) \<Rightarrow> bool \<times> (nat \<rightharpoonup> nat \<times> nat)" where
  "rateLimit opts t c h =
     (let (reset, n) =
            (case h c of
               None \<Rightarrow> (t + windowMs opts, 0)
             | Some (r, k) \<Rightarrow> if t < r then (r, k) else (t + windowMs opts, 0))
      in (Suc n \<le> max_hits opts, h(c \<mapsto> (reset, Suc n))))"

text \<open>
  Modelled from the spec: the rejection of a request beyond the limit, which the
  package sends itself. The spec (4.3) has it as the equivalent of HTTP 429.
\<close>

definition too_many :: response where
  "too_many = \<lparr>status = 429, payload = Message ''Too many requests, please try again later.''\<rparr>"

text \<open>\<open>app.use('/cms/login', loginLimiter)\<close> sees every request to that path.\<close>

fun login_path :: "action \<Rightarrow> bool" where
  "login_path GetLogin = True"
| "login_path (PostLogin b) = True"
| "login_path a = False"

text \<open>
  The application in the order of its \<open>app.use\<close> calls: the general limiter on
  \<open>/cms/\<close> (line 37), the login limiter on \<open>/cms/login\<close> (line 44), then the
  session and the routes.
\<close>

definition handle :: "env \<Rightarrow> request \<Rightarrow> state \<Rightarrow> state \<times> response" where
  "handle e r s =
     (let (ok1, g) = rateLimit limiter (clock_ms e) (client r) (general_hits s);
          s1 = s\<lparr>general_hits := g\<rparr>
      in if \<not> ok1 then (s1, too_many)
         else if login_path (action r)
         then
           let (ok2, l) = rateLimit loginLimiter (clock_ms e) (client r) (login_hits s1);
               s2 = s1\<lparr>login_hits := l\<rparr>
           in if \<not> ok2 then (s2, too_many) else route e r s2
         else route e r s1)"

text \<open>A sequence of requests, each with what it takes from outside; the last state.\<close>

fun run :: "(env \<times> request) list \<Rightarrow> state \<Rightarrow> state" where
  "run [] s = s"
| "run ((e, r) # rest) s = run rest (fst (handle e r s))"

subsection \<open>The properties the specification names\<close>

text \<open>
  The shape the specification gives a slug: lowercase letters, digits and hyphens
  only, no two hyphens in a row, no hyphen at either end.
\<close>

definition slug_chars_only :: "string \<Rightarrow> bool" where
  "slug_chars_only s = list_all (\<lambda>c. in_class c \<or> c = CHR ''-'') s"

fun doubled_hyphen :: "string \<Rightarrow> bool" where
  "doubled_hyphen (a # b # cs) = ((a = CHR ''-'' \<and> b = CHR ''-'') \<or> doubled_hyphen (b # cs))"
| "doubled_hyphen cs = False"

definition leading_hyphen :: "string \<Rightarrow> bool" where
  "leading_hyphen s = (case s of [] \<Rightarrow> False | c # cs \<Rightarrow> c = CHR ''-'')"

definition trailing_hyphen :: "string \<Rightarrow> bool" where
  "trailing_hyphen s = leading_hyphen (rev s)"

text \<open>
  The specification's words for the derivation (4.4), as a second definition: every
  character outside \<open>[a-z0-9]\<close> of the lower-cased title becomes a hyphen, and a run
  of hyphens is squeezed into one.
\<close>

definition hyphenate :: "char \<Rightarrow> char" where
  "hyphenate c = (if in_class c then c else CHR ''-'')"

fun squeeze :: "string \<Rightarrow> string" where
  "squeeze (a # b # cs) =
     (if a = CHR ''-'' \<and> b = CHR ''-'' then squeeze (b # cs) else a # squeeze (b # cs))"
| "squeeze cs = cs"

definition spec_slug :: "string \<Rightarrow> string" where
  "spec_slug title = squeeze (map hyphenate (toLowerCase title))"

text \<open>
  The specification (7) has a duplicate slug surfaced as a client error, a status
  of the 4xx class.
\<close>

definition client_error :: "response \<Rightarrow> bool" where
  "client_error r \<longleftrightarrow> 400 \<le> status r \<and> status r < 500"

text \<open>
  A quoted string of a front matter in YAML: it opens and closes with a double
  quote, and a double quote in between is escaped by a backslash.
\<close>

fun quotes_escaped :: "string \<Rightarrow> bool" where
  "quotes_escaped [] = True"
| "quotes_escaped (c # cs) =
     (if c = CHR 0x5C then (case cs of [] \<Rightarrow> False | d # ds \<Rightarrow> quotes_escaped ds)
      else c \<noteq> dquote \<and> quotes_escaped cs)"

definition quoted_string :: "string \<Rightarrow> bool" where
  "quoted_string v \<longleftrightarrow>
     2 \<le> length v \<and> hd v = dquote \<and> last v = dquote \<and> quotes_escaped (butlast (tl v))"

text \<open>The lines of a file, and the value of a \<open>key: value\<close> line.\<close>

fun split_lines :: "string \<Rightarrow> string list" where
  "split_lines [] = [[]]"
| "split_lines (c # cs) =
     (if c = newline then [] # split_lines cs
      else (case split_lines cs of [] \<Rightarrow> [[c]] | l # ls \<Rightarrow> (c # l) # ls))"

definition value_of :: "string \<Rightarrow> string \<Rightarrow> string option" where
  "value_of key line =
     (if take (length key + 2) line = key @ '': '' then Some (drop (length key + 2) line)
      else None)"

text \<open>The row the insert of line 151 adds, and the routes registered with \<open>requireAuth\<close>.\<close>

definition new_row :: "env \<Rightarrow> post_body \<Rightarrow> state \<Rightarrow> post" where
  "new_row e b s =
     \<lparr>post_id = next_id (posts s), post_title = the (title_field b),
      post_content = the (content_field b), post_date = now_iso e,
      post_slug = derive_slug (the (title_field b))\<rparr>"

definition privileged :: "action \<Rightarrow> bool" where
  "privileged a = (case a of GetDashboard \<Rightarrow> True | GetPosts \<Rightarrow> True | PostPosts b \<Rightarrow> True | _ \<Rightarrow> False)"


subsection \<open>A server to run\<close>

text \<open>
  The server after start-up (the admin user of lines 62 to 67, no post, no file) with
  one session logged in as the admin; a request for which nothing fails, with a
  stand-in for bcrypt; and the body of the specification's scenario.
\<close>

definition example_state :: state where
  "example_state =
     \<lparr>users = [\<lparr>user_id = 1, username = ''admin'', password = ''bcrypt:secret''\<rparr>],
      posts = [], files = Map.empty, sessions = [7 \<mapsto> 1],
      general_hits = Map.empty, login_hits = Map.empty\<rparr>"

definition example_env :: env where
  "example_env =
     \<lparr>clock_ms = 0, now_iso = ''2024-01-01T00:00:00.000Z'', db_fault = False,
      fs_fault = False, bcrypt_compare = (\<lambda>pw h. h = ''bcrypt:'' @ pw)\<rparr>"

definition hello_body :: post_body where
  "hello_body = \<lparr>title_field = Some ''Hello, World!'', content_field = Some ''body''\<rparr>"

text \<open>
  A later request, a second title with the slug of the first, a title with a slug of
  its own, a title with double quotes in it, and a login with a wrong password.
\<close>

definition later_env :: env where
  "later_env = example_env\<lparr>clock_ms := 86400000, now_iso := ''2024-01-02T00:00:00.000Z''\<rparr>"

definition second_body :: post_body where
  "second_body = \<lparr>title_field = Some ''hello world?'', content_field = Some ''again''\<rparr>"


definition quote_title :: string where
  "quote_title = ''Say '' @ [dquote] @ ''hi'' @ [dquote]"

definition quote_body :: post_body where
  "quote_body = \<lparr>title_field = Some quote_title, content_field = Some ''body''\<rparr>"


section \<open>Slug derivation\<close>

lemma hyphen_outside_class: "\<not> in_class (CHR ''-'')"
  by (simp add: in_class_def)

lemma replace_runs_Nil_iff: "replace_runs s = [] \<longleftrightarrow> s = []"
  by (cases s) simp_all

lemma leading_replace_runs:
  "leading_hyphen (replace_runs s) \<longleftrightarrow> s \<noteq> [] \<and> \<not> in_class (hd s)"
  by (cases s) (auto simp: leading_hyphen_def hyphen_outside_class)

lemma dropWhile_starts_in_class:
  "\<not> leading_hyphen (replace_runs (dropWhile (\<lambda>d. \<not> in_class d) cs))"
proof -
  have "dropWhile (\<lambda>d. \<not> in_class d) cs = [] \<or> in_class (hd (dropWhile (\<lambda>d. \<not> in_class d) cs))"
    using hd_dropWhile [of "\<lambda>d. \<not> in_class d" cs] by auto
  then show ?thesis by (auto simp: leading_replace_runs)
qed

lemma replace_runs_chars: "slug_chars_only (replace_runs s)"
  by (induction s rule: replace_runs.induct) (simp_all add: slug_chars_only_def)

lemma doubled_hyphen_Cons:
  "doubled_hyphen (a # s) \<longleftrightarrow> (a = CHR ''-'' \<and> leading_hyphen s) \<or> doubled_hyphen s"
  by (cases s) (auto simp: leading_hyphen_def)

lemma replace_runs_no_double: "\<not> doubled_hyphen (replace_runs s)"
proof (induction s rule: replace_runs.induct)
  case 1
  show ?case by simp
next
  case (2 c cs)
  show ?case
  proof (cases "in_class c")
    case True
    with 2 hyphen_outside_class show ?thesis by (auto simp: doubled_hyphen_Cons)
  next
    case False
    with 2 show ?thesis by (simp add: doubled_hyphen_Cons dropWhile_starts_in_class)
  qed
qed

lemma trailing_Cons:
  "trailing_hyphen (a # s) \<longleftrightarrow> (if s = [] then a = CHR ''-'' else trailing_hyphen s)"
  by (cases s rule: rev_cases) (auto simp: trailing_hyphen_def leading_hyphen_def)

lemma last_dropWhile: "dropWhile P cs \<noteq> [] \<Longrightarrow> last (dropWhile P cs) = last cs"
  by (induction cs) (auto split: if_splits)

lemma dropWhile_Nil_last: "dropWhile P cs = [] \<Longrightarrow> cs \<noteq> [] \<Longrightarrow> P (last cs)"
  by (induction cs) (auto split: if_splits)

lemma trailing_replace_runs:
  "trailing_hyphen (replace_runs s) \<longleftrightarrow> s \<noteq> [] \<and> \<not> in_class (last s)"
proof (induction s rule: replace_runs.induct)
  case 1
  show ?case by (simp add: trailing_hyphen_def leading_hyphen_def)
next
  case (2 c cs)
  show ?case
  proof (cases "in_class c")
    case True
    with 2 hyphen_outside_class show ?thesis
      by (auto simp: trailing_Cons replace_runs_Nil_iff)
  next
    case False
    let ?d = "dropWhile (\<lambda>d. \<not> in_class d) cs"
    show ?thesis
    proof (cases "?d = []")
      case True
      with False have r: "replace_runs (c # cs) = ''-''" by (simp add: replace_runs_Nil_iff)
      have "cs = [] \<or> \<not> in_class (last cs)"
        using True dropWhile_Nil_last [of "\<lambda>d. \<not> in_class d" cs] by blast
      with False show ?thesis
        unfolding r by (auto simp: trailing_hyphen_def leading_hyphen_def)
    next
      case nonempty: False
      then have "cs \<noteq> []" by auto
      with False nonempty 2 last_dropWhile [of "\<lambda>d. \<not> in_class d" cs] show ?thesis
        by (simp add: trailing_Cons replace_runs_Nil_iff)
    qed
  qed
qed

lemma squeeze_hyphen_run:
  "squeeze (CHR ''-'' # map hyphenate cs) =
   squeeze (CHR ''-'' # map hyphenate (dropWhile (\<lambda>d. \<not> in_class d) cs))"
  by (induction cs) (simp_all add: hyphenate_def)

lemma squeeze_hyphen_stop:
  "xs = [] \<or> in_class (hd xs) \<Longrightarrow>
   squeeze (CHR ''-'' # map hyphenate xs) = CHR ''-'' # squeeze (map hyphenate xs)"
  using hyphen_outside_class by (cases xs) (auto simp: hyphenate_def)

lemma squeeze_class_Cons:
  "in_class c \<Longrightarrow> squeeze (c # xs) = c # squeeze xs"
  using hyphen_outside_class by (cases xs) auto

lemma replace_runs_squeeze: "replace_runs s = squeeze (map hyphenate s)"
proof (induction s rule: replace_runs.induct)
  case 1
  show ?case by simp
next
  case (2 c cs)
  show ?case
  proof (cases "in_class c")
    case True
    with 2 show ?thesis by (simp add: hyphenate_def squeeze_class_Cons)
  next
    case False
    let ?d = "dropWhile (\<lambda>d. \<not> in_class d) cs"
    have stop: "?d = [] \<or> in_class (hd ?d)"
      using hd_dropWhile [of "\<lambda>d. \<not> in_class d" cs] by auto
    have "squeeze (map hyphenate (c # cs)) = squeeze (CHR ''-'' # map hyphenate ?d)"
      using False squeeze_hyphen_run [of cs] by (simp add: hyphenate_def)
    also have "\<dots> = CHR ''-'' # squeeze (map hyphenate ?d)"
      using stop by (rule squeeze_hyphen_stop)
    finally show ?thesis using False 2 by simp
  qed
qed

lemma hello_world_slug: "derive_slug ''Hello, World!'' = ''hello-world-''"
  by code_simp

lemma derive_slug_refines: "derive_slug title = spec_slug title"
  by (simp add: derive_slug_def spec_slug_def replace_runs_squeeze)

text \<open>
  Claim C3, as the code has it. For every title the slug is the lower-cased title
  with each maximal run of characters outside \<open>[a-z0-9]\<close> replaced by one hyphen
  (the specification's wording, \<open>spec_slug\<close>); it holds lowercase letters, digits
  and hyphens only, and never two hyphens in a row. It begins with a hyphen exactly
  when the title begins with a character that is outside \<open>[a-z0-9]\<close> after
  lower-casing, and ends with one exactly when the title ends with such a character.
  The title \<open>Hello, World!\<close> derives \<open>hello-world-\<close>.
\<close>

theorem derive_slug_shape:
  "derive_slug title = spec_slug title
   \<and> slug_chars_only (derive_slug title)
   \<and> \<not> doubled_hyphen (derive_slug title)
   \<and> (leading_hyphen (derive_slug title)
        \<longleftrightarrow> title \<noteq> [] \<and> \<not> in_class (toLowerCase_char (hd title)))
   \<and> (trailing_hyphen (derive_slug title)
        \<longleftrightarrow> title \<noteq> [] \<and> \<not> in_class (toLowerCase_char (last title)))
   \<and> derive_slug ''Hello, World!'' = ''hello-world-''"
proof -
  have lead: "leading_hyphen (derive_slug title)
      \<longleftrightarrow> title \<noteq> [] \<and> \<not> in_class (toLowerCase_char (hd title))"
    unfolding derive_slug_def toLowerCase_def leading_replace_runs
    by (cases title) simp_all
  have trail: "trailing_hyphen (derive_slug title)
      \<longleftrightarrow> title \<noteq> [] \<and> \<not> in_class (toLowerCase_char (last title))"
    unfolding derive_slug_def toLowerCase_def trailing_replace_runs
    by (cases title rule: rev_cases) simp_all
  show ?thesis
    using lead trail
    by (simp add: derive_slug_refines [symmetric] hello_world_slug)
      (simp add: derive_slug_def replace_runs_chars replace_runs_no_double)
qed

text \<open>
  Claim C3 as written fails: the slug of \<open>Hello, World!\<close> ends with a hyphen, and
  it is not \<open>hello-world\<close>.
\<close>

theorem derive_slug_trailing_hyphen_counterexample:
  "trailing_hyphen (derive_slug ''Hello, World!'')
   \<and> derive_slug ''Hello, World!'' \<noteq> ''hello-world''"
  by (simp add: hello_world_slug trailing_hyphen_def leading_hyphen_def)

section \<open>Creating a post\<close>

text \<open>The four ways the handler of \<open>POST /cms/posts\<close> ends.\<close>

lemma create_invalid:
  "falsy (title_field b) \<or> falsy (content_field b) \<Longrightarrow>
   create_post_handler e b s =
     (s, \<lparr>status = 400, payload = Error_json ''Title and content are required''\<rparr>)"
  by (auto simp: create_post_handler_def res_json_def res_status_def res0_def)

lemma create_db_error:
  "\<not> falsy (title_field b) \<Longrightarrow> \<not> falsy (content_field b) \<Longrightarrow>
   db_fault e \<or> slug_taken (posts s) (derive_slug (the (title_field b))) \<Longrightarrow>
   create_post_handler e b s = (s, \<lparr>status = 500, payload = Error_json ''Database error''\<rparr>)"
  by (auto simp: create_post_handler_def res_json_def res_status_def res0_def Let_def)

lemma create_fs_error:
  "\<not> falsy (title_field b) \<Longrightarrow> \<not> falsy (content_field b) \<Longrightarrow> \<not> db_fault e \<Longrightarrow>
   \<not> slug_taken (posts s) (derive_slug (the (title_field b))) \<Longrightarrow> fs_fault e \<Longrightarrow>
   create_post_handler e b s =
     (s\<lparr>posts := posts s @ [new_row e b s]\<rparr>,
      \<lparr>status = 500, payload = Error_json ''Error creating post file''\<rparr>)"
  by (simp add: create_post_handler_def res_json_def res_status_def res0_def Let_def new_row_def)

lemma create_ok:
  "\<not> falsy (title_field b) \<Longrightarrow> \<not> falsy (content_field b) \<Longrightarrow> \<not> db_fault e \<Longrightarrow>
   \<not> slug_taken (posts s) (derive_slug (the (title_field b))) \<Longrightarrow> \<not> fs_fault e \<Longrightarrow>
   create_post_handler e b s =
     (s\<lparr>posts := posts s @ [new_row e b s],
        files := (files s)(filePath (derive_slug (the (title_field b))) \<mapsto>
                   hugoContent (the (title_field b)) (now_iso e) (the (content_field b)))\<rparr>,
      \<lparr>status = 200, payload = Created_json (next_id (posts s)) (derive_slug (the (title_field b)))\<rparr>)"
  by (simp add: create_post_handler_def res_json_def res_status_def res0_def Let_def new_row_def)

lemma created_only_on_success:
  assumes "payload (snd (create_post_handler e b s)) = Created_json n sl"
  shows "\<not> falsy (title_field b) \<and> \<not> falsy (content_field b) \<and> \<not> db_fault e
         \<and> \<not> slug_taken (posts s) (derive_slug (the (title_field b))) \<and> \<not> fs_fault e"
  using assms
  by (auto simp: create_post_handler_def res_json_def res_status_def res0_def Let_def
           split: if_splits)

lemma created_row:
  assumes "payload (snd (create_post_handler e b s)) = Created_json n sl"
  shows "posts (fst (create_post_handler e b s)) = posts s @ [new_row e b s]
       \<and> n = next_id (posts s) \<and> sl = derive_slug (the (title_field b))"
proof -
  from assms have "\<not> falsy (title_field b) \<and> \<not> falsy (content_field b) \<and> \<not> db_fault e
         \<and> \<not> slug_taken (posts s) (derive_slug (the (title_field b))) \<and> \<not> fs_fault e"
    by (rule created_only_on_success)
  with assms show ?thesis by (simp add: create_ok)
qed



lemma route_posts_grow: "\<exists>rows. posts (fst (route e r s)) = posts s @ rows"
  by (cases "action r")
     (auto simp: route_def login_handler_def logout_handler_def requireAuth_def
        list_posts_handler_def create_post_handler_def Let_def split: option.splits)

lemma handle_posts_grow: "\<exists>rows. posts (fst (handle e r s)) = posts s @ rows"
proof -
  have "\<exists>rows. posts (fst (route e r s')) = posts s @ rows" if "posts s' = posts s" for s'
    using route_posts_grow [of e r s'] that by simp
  then show ?thesis
    by (auto simp: handle_def Let_def split: prod.splits)
qed

lemma run_posts_grow: "\<exists>rows. posts (run reqs s) = posts s @ rows"
proof (induction reqs arbitrary: s)
  case Nil
  show ?case by simp
next
  case (Cons q reqs)
  obtain e r where q: "q = (e, r)" by (cases q)
  from handle_posts_grow [of e r s] obtain a where a: "posts (fst (handle e r s)) = posts s @ a" ..
  from Cons.IH [of "fst (handle e r s)"] obtain b where
    "posts (run reqs (fst (handle e r s))) = posts (fst (handle e r s)) @ b" ..
  with a q show ?case by simp
qed

text \<open>The listing is the table, sorted.\<close>

lemma mset_insert_desc: "mset (insert_desc p qs) = add_mset p (mset qs)"
  by (induction qs) auto


lemma mset_order_by: "mset (order_by_date_desc rows) = mset rows"
proof -
  have "mset (foldr insert_desc xs []) = mset xs" for xs
    by (induction xs) (simp_all add: mset_insert_desc)
  from this [of "rev rows"] show ?thesis by (simp add: order_by_date_desc_def)
qed


lemma set_order_by: "set (order_by_date_desc rows) = set rows"
  using mset_order_by [of rows] by (metis set_mset_mset)

lemma list_ok:
  "\<not> db_fault e \<Longrightarrow>
   list_posts_handler e s =
     (s, \<lparr>status = 200, payload = Posts_json (order_by_date_desc (map select_listed (posts s)))\<rparr>)"
  by (simp add: list_posts_handler_def res_json_def res0_def)


text \<open>A slug that is taken stays taken, and its file stays as it is.\<close>

lemma filePath_inject: "filePath a = filePath b \<longleftrightarrow> a = b"
  by (simp add: filePath_def)

lemma route_keeps_slug_file:
  assumes "slug_taken (posts s) sl"
  shows "slug_taken (posts (fst (route e r s))) sl
       \<and> files (fst (route e r s)) (filePath sl) = files s (filePath sl)"
proof (cases "action r")
  case (PostPosts b)
  show ?thesis
  proof (cases "payload (snd (create_post_handler e b s)) = Created_json (next_id (posts s)) (derive_slug (the (title_field b)))")
    case True
    then have ok: "\<not> falsy (title_field b) \<and> \<not> falsy (content_field b) \<and> \<not> db_fault e
         \<and> \<not> slug_taken (posts s) (derive_slug (the (title_field b))) \<and> \<not> fs_fault e"
      by (rule created_only_on_success)
    with assms have "derive_slug (the (title_field b)) \<noteq> sl" by auto
    with ok assms PostPosts show ?thesis
      by (simp add: route_def requireAuth_def create_ok slug_taken_def filePath_inject)
  next
    case False
    with assms PostPosts show ?thesis
      by (auto simp: route_def requireAuth_def create_post_handler_def Let_def slug_taken_def
            res_json_def res_status_def res0_def)
  qed
qed (use assms in \<open>auto simp: route_def login_handler_def logout_handler_def requireAuth_def
        list_posts_handler_def split: option.splits\<close>)

lemma handle_keeps_slug_file:
  assumes "slug_taken (posts s) sl"
  shows "slug_taken (posts (fst (handle e r s))) sl
       \<and> files (fst (handle e r s)) (filePath sl) = files s (filePath sl)"
proof -
  have "slug_taken (posts (fst (route e r s'))) sl
       \<and> files (fst (route e r s')) (filePath sl) = files s (filePath sl)"
    if "posts s' = posts s" and "files s' = files s" for s'
    using route_keeps_slug_file [of s' sl e r] assms that by simp
  with assms show ?thesis
    by (auto simp: handle_def Let_def split: prod.splits)
qed

lemma run_keeps_slug_file:
  "slug_taken (posts s) sl \<Longrightarrow>
   slug_taken (posts (run reqs s)) sl \<and> files (run reqs s) (filePath sl) = files s (filePath sl)"
proof (induction reqs arbitrary: s)
  case Nil
  then show ?case by simp
next
  case (Cons q reqs)
  obtain e r where q: "q = (e, r)" by (cases q)
  from handle_keeps_slug_file [OF Cons.prems, of e r]
  have h: "slug_taken (posts (fst (handle e r s))) sl"
    and f: "files (fst (handle e r s)) (filePath sl) = files s (filePath sl)" by simp_all
  from Cons.IH [OF h] f q show ?case by simp
qed

text \<open>The example server's first post.\<close>

lemma hello_fields:
  "\<not> falsy (title_field hello_body)" "\<not> falsy (content_field hello_body)"
  "the (title_field hello_body) = ''Hello, World!''"
  by (simp_all add: hello_body_def falsy_def)

lemma example_env_quiet: "\<not> db_fault example_env" "\<not> fs_fault example_env"
  by (simp_all add: example_env_def)

lemma hello_created:
  "payload (snd (create_post_handler example_env hello_body example_state))
     = Created_json 1 ''hello-world-''"
proof -
  have "\<not> slug_taken (posts example_state) (derive_slug (the (title_field hello_body)))"
    by (simp add: example_state_def slug_taken_def)
  from create_ok [OF hello_fields(1,2) example_env_quiet(1) this example_env_quiet(2)]
  show ?thesis
    by (simp add: hello_fields hello_world_slug next_id_def example_state_def)
qed

lemma second_slug: "derive_slug ''hello world?'' = ''hello-world-''"
  by code_simp


lemma say_hi_slug: "derive_slug quote_title = ''say-hi-''"
  unfolding quote_title_def dquote_def by code_simp

text \<open>
  Claim C1. When the insert succeeds and the write of the content file then fails,
  the client gets the status 500 with the message \<open>Error creating post file\<close>, the
  new row is in the table (nothing rolls it back), and after any further requests a
  listing still shows the post.
\<close>

theorem partial_failure_keeps_row:
  assumes "\<not> falsy (title_field b)" and "\<not> falsy (content_field b)"
    and "\<not> db_fault e" and "\<not> slug_taken (posts s) (derive_slug (the (title_field b)))"
    and "fs_fault e"
    and "\<not> db_fault e'"
  shows "snd (create_post_handler e b s) =
           \<lparr>status = 500, payload = Error_json ''Error creating post file''\<rparr>
       \<and> posts (fst (create_post_handler e b s)) = posts s @ [new_row e b s]
       \<and> post_slug (new_row e b s) = derive_slug (the (title_field b))
       \<and> (\<exists>L. snd (list_posts_handler e' (run reqs (fst (create_post_handler e b s)))) =
                 \<lparr>status = 200, payload = Posts_json L\<rparr>
              \<and> select_listed (new_row e b s) \<in> set L)"
proof -
  let ?s1 = "fst (create_post_handler e b s)"
  have c: "create_post_handler e b s =
     (s\<lparr>posts := posts s @ [new_row e b s]\<rparr>,
      \<lparr>status = 500, payload = Error_json ''Error creating post file''\<rparr>)"
    using assms by (simp add: create_fs_error)
  obtain rows where "posts (run reqs ?s1) = posts ?s1 @ rows"
    using run_posts_grow [of reqs ?s1] ..
  with c have "new_row e b s \<in> set (posts (run reqs ?s1))" by simp
  then have "select_listed (new_row e b s)
      \<in> set (order_by_date_desc (map select_listed (posts (run reqs ?s1))))"
    by (simp add: set_order_by)
  with c assms(6) show ?thesis
    by (simp add: list_ok new_row_def)
qed

theorem partial_failure_keeps_row_witness:
  "snd (create_post_handler (example_env\<lparr>fs_fault := True\<rparr>) hello_body example_state) =
           \<lparr>status = 500, payload = Error_json ''Error creating post file''\<rparr>
       \<and> posts (fst (create_post_handler (example_env\<lparr>fs_fault := True\<rparr>) hello_body example_state))
           = posts example_state @ [new_row (example_env\<lparr>fs_fault := True\<rparr>) hello_body example_state]
       \<and> post_slug (new_row (example_env\<lparr>fs_fault := True\<rparr>) hello_body example_state)
           = derive_slug (the (title_field hello_body))
       \<and> (\<exists>L. snd (list_posts_handler example_env
                 (run [] (fst (create_post_handler (example_env\<lparr>fs_fault := True\<rparr>) hello_body
                    example_state)))) =
                 \<lparr>status = 200, payload = Posts_json L\<rparr>
              \<and> select_listed (new_row (example_env\<lparr>fs_fault := True\<rparr>) hello_body example_state)
                  \<in> set L)"
proof -
  have a: "\<not> db_fault (example_env\<lparr>fs_fault := True\<rparr>)" "fs_fault (example_env\<lparr>fs_fault := True\<rparr>)"
    by (simp_all add: example_env_def)
  have b: "\<not> slug_taken (posts example_state) (derive_slug (the (title_field hello_body)))"
    by (simp add: example_state_def slug_taken_def)
  show ?thesis
    by (rule partial_failure_keeps_row
          [OF hello_fields(1,2) a(1) b a(2) example_env_quiet(1)])
qed

text \<open>
  Claim C2, as the code has it. Once a request has created a post, a later request
  whose title derives the same slug is rejected, whatever requests came in between:
  the answer is the status 500 with the message \<open>Database error\<close>, the one the
  handler gives for every failure of the database; the state is the one before the
  request, so no row is added and no file written, and the file of the first request
  still holds what the first request wrote.
\<close>

theorem duplicate_slug_rejected:
  assumes "payload (snd (create_post_handler e1 b1 s)) = Created_json n sl"
    and "\<not> falsy (title_field b2)" and "\<not> falsy (content_field b2)"
    and "derive_slug (the (title_field b2)) = derive_slug (the (title_field b1))"
    and "s1 = run reqs (fst (create_post_handler e1 b1 s))"
  shows "create_post_handler e2 b2 s1 =
           (s1, \<lparr>status = 500, payload = Error_json ''Database error''\<rparr>)
       \<and> files s1 (filePath (derive_slug (the (title_field b1)))) =
           Some (hugoContent (the (title_field b1)) (now_iso e1) (the (content_field b1)))"
proof -
  let ?sl = "derive_slug (the (title_field b1))"
  let ?s = "fst (create_post_handler e1 b1 s)"
  from assms(1) have ok: "\<not> falsy (title_field b1) \<and> \<not> falsy (content_field b1) \<and> \<not> db_fault e1
         \<and> \<not> slug_taken (posts s) ?sl \<and> \<not> fs_fault e1"
    by (rule created_only_on_success)
  then have taken: "slug_taken (posts ?s) ?sl"
    and written: "files ?s (filePath ?sl) =
       Some (hugoContent (the (title_field b1)) (now_iso e1) (the (content_field b1)))"
    by (simp_all add: create_ok slug_taken_def new_row_def)
  from run_keeps_slug_file [OF taken, of reqs] assms(5)
  have "slug_taken (posts s1) ?sl" and "files s1 (filePath ?sl) = files ?s (filePath ?sl)"
    by simp_all
  with written assms(2,3,4) show ?thesis
    by (simp add: create_db_error)
qed

theorem duplicate_slug_rejected_witness:
  "create_post_handler later_env second_body
       (run [] (fst (create_post_handler example_env hello_body example_state))) =
           (run [] (fst (create_post_handler example_env hello_body example_state)),
            \<lparr>status = 500, payload = Error_json ''Database error''\<rparr>)
       \<and> files (run [] (fst (create_post_handler example_env hello_body example_state)))
           (filePath (derive_slug (the (title_field hello_body)))) =
           Some (hugoContent (the (title_field hello_body)) (now_iso example_env)
             (the (content_field hello_body)))"
proof -
  have a: "\<not> falsy (title_field second_body)" "\<not> falsy (content_field second_body)"
    by (simp_all add: second_body_def falsy_def)
  have b: "derive_slug (the (title_field second_body)) = derive_slug (the (title_field hello_body))"
    by (simp add: second_body_def hello_fields second_slug hello_world_slug)
  show ?thesis
    by (rule duplicate_slug_rejected [OF hello_created a b refl])
qed

text \<open>
  Claim C2 as written fails: posting \<open>Hello, World!\<close> a second time is answered
  with the status 500, which is not a client error, so not a conflict.
\<close>

theorem duplicate_slug_not_a_conflict_counterexample:
  "snd (create_post_handler later_env hello_body
          (fst (create_post_handler example_env hello_body example_state)))
     = \<lparr>status = 500, payload = Error_json ''Database error''\<rparr>
   \<and> \<not> client_error (snd (create_post_handler later_env hello_body
          (fst (create_post_handler example_env hello_body example_state))))"
proof -
  have "slug_taken (posts (fst (create_post_handler example_env hello_body example_state)))
          (derive_slug (the (title_field hello_body)))"
    using created_row [OF hello_created] by (simp add: slug_taken_def new_row_def)
  then have "create_post_handler later_env hello_body
          (fst (create_post_handler example_env hello_body example_state))
     = (fst (create_post_handler example_env hello_body example_state),
        \<lparr>status = 500, payload = Error_json ''Database error''\<rparr>)"
    by (simp add: create_db_error hello_fields)
  then show ?thesis by (simp add: client_error_def)
qed

text \<open>
  Claim C6. An authenticated request to create a post whose title or content is
  missing or empty is answered with the status 400, a client error, and the state is
  the one before the request: nothing is inserted and no file is written.
\<close>

theorem invalid_input_rejected:
  assumes "action r = PostPosts b" and "\<not> falsy_id (sessions s (sid r))"
    and "falsy (title_field b) \<or> falsy (content_field b)"
  shows "route e r s =
           (s, \<lparr>status = 400, payload = Error_json ''Title and content are required''\<rparr>)
       \<and> client_error (snd (route e r s))"
  using assms by (simp add: route_def requireAuth_def create_invalid client_error_def)

theorem invalid_input_rejected_witness:
  "route example_env
      \<lparr>client = 3, sid = 7, action = PostPosts \<lparr>title_field = Some [], content_field = None\<rparr>\<rparr>
      example_state
     = (example_state, \<lparr>status = 400, payload = Error_json ''Title and content are required''\<rparr>)
   \<and> client_error (snd (route example_env
      \<lparr>client = 3, sid = 7, action = PostPosts \<lparr>title_field = Some [], content_field = None\<rparr>\<rparr>
      example_state))"
proof -
  let ?b = "\<lparr>title_field = Some [], content_field = None\<rparr>"
  let ?r = "\<lparr>client = 3, sid = 7, action = PostPosts ?b\<rparr>"
  have a: "action ?r = PostPosts ?b" by simp
  have b: "\<not> falsy_id (sessions example_state (sid ?r))"
    by (simp add: falsy_id_def example_state_def)
  have c: "falsy (title_field ?b) \<or> falsy (content_field ?b)"
    by (simp add: falsy_def)
  show ?thesis by (rule invalid_input_rejected [OF a b c])
qed



subsection \<open>The front matter\<close>

text \<open>
  For a title without a line break, a double quote or a backslash the second line
  of the file is \<open>title: \<close> followed by a quoted string.
\<close>

lemma split_lines_first:
  "newline \<notin> set xs \<Longrightarrow> split_lines (xs @ newline # ys) = xs # split_lines ys"
  by (induction xs) auto

lemma quotes_escaped_plain:
  "dquote \<notin> set t \<Longrightarrow> CHR 0x5C \<notin> set t \<Longrightarrow> quotes_escaped t"
  by (induction t) auto

lemma title_line:
  assumes "newline \<notin> set title"
  shows "split_lines (hugoContent title date content) ! 1 = ''title: '' @ [dquote] @ title @ [dquote]"
proof -
  have a: "newline \<notin> set ''---''" by (simp add: newline_def)
  have b: "newline \<notin> set (''title: '' @ [dquote] @ title @ [dquote])"
    using assms by (simp add: newline_def dquote_def)
  have "hugoContent title date content =
      ''---'' @ newline # ((''title: '' @ [dquote] @ title @ [dquote]) @ newline #
        (''date: '' @ date @ [newline] @ ''draft: false'' @ [newline] @ ''---'' @ [newline]
          @ [newline] @ content))"
    by (simp add: hugoContent_def)
  then show ?thesis
    by (simp only: split_lines_first [OF a] split_lines_first [OF b]) simp
qed

lemma plain_title_quoted:
  assumes "newline \<notin> set title" and "dquote \<notin> set title" and "CHR 0x5C \<notin> set title"
  shows "value_of ''title'' (split_lines (hugoContent title date content) ! 1)
           = Some ([dquote] @ title @ [dquote])
       \<and> quoted_string ([dquote] @ title @ [dquote])"
  unfolding title_line [OF assms(1)] using assms(2,3)
  by (simp add: value_of_def quoted_string_def quotes_escaped_plain)

text \<open>
  Claim C7 does not hold of the code. The title \<open>Say "hi"\<close> is copied between the
  quotes as it is: the file \<open>content/posts/say-hi-.md\<close> has the line
  \<open>title: "Say "hi""\<close>, whose value is not a quoted string.
\<close>

theorem quoted_title_breaks_front_matter:
  "files (fst (create_post_handler example_env quote_body example_state))
       ''content/posts/say-hi-.md''
     = Some (hugoContent quote_title ''2024-01-01T00:00:00.000Z'' ''body'')
   \<and> value_of ''title''
        (split_lines (hugoContent quote_title ''2024-01-01T00:00:00.000Z'' ''body'') ! 1)
     = Some ([dquote] @ quote_title @ [dquote])
   \<and> [dquote] @ quote_title @ [dquote] = [dquote] @ ''Say '' @ [dquote] @ ''hi'' @ [dquote] @ [dquote]
   \<and> \<not> quoted_string ([dquote] @ quote_title @ [dquote])"
proof -
  have ok: "\<not> falsy (title_field quote_body)" "\<not> falsy (content_field quote_body)"
    "\<not> db_fault example_env" "\<not> fs_fault example_env"
    "\<not> slug_taken (posts example_state) (derive_slug (the (title_field quote_body)))"
    by (simp_all add: quote_body_def quote_title_def falsy_def example_env_def
          example_state_def slug_taken_def)
  have nl: "newline \<notin> set quote_title"
    by (simp add: quote_title_def newline_def dquote_def)
  have written: "files (fst (create_post_handler example_env quote_body example_state))
       ''content/posts/say-hi-.md''
     = Some (hugoContent quote_title ''2024-01-01T00:00:00.000Z'' ''body'')"
    unfolding create_ok [OF ok(1,2,3,5,4)]
    by (simp add: quote_body_def say_hi_slug filePath_def example_env_def)
  have v: "value_of ''title''
        (split_lines (hugoContent quote_title ''2024-01-01T00:00:00.000Z'' ''body'') ! 1)
     = Some ([dquote] @ quote_title @ [dquote])"
    unfolding title_line [OF nl] by (simp add: value_of_def)
  have "\<not> quoted_string ([dquote] @ quote_title @ [dquote])"
    by (simp add: quoted_string_def quote_title_def dquote_def)
  with written v show ?thesis by (simp add: quote_title_def)
qed

section \<open>Listing posts\<close>



section \<open>Sessions and login\<close>

text \<open>An authenticated request reaches the handler of its route.\<close>

lemma authenticated_create:
  "action r = PostPosts b \<Longrightarrow> \<not> falsy_id (sessions s (sid r)) \<Longrightarrow>
   route e r s = create_post_handler e b s"
  by (simp add: route_def requireAuth_def)

lemma authenticated_list:
  "action r = GetPosts \<Longrightarrow> \<not> falsy_id (sessions s (sid r)) \<Longrightarrow>
   route e r s = list_posts_handler e s"
  by (simp add: route_def requireAuth_def)

lemma redirect_login:
  "res_redirect ''/cms/login'' res0 = \<lparr>status = 302, payload = Location ''/cms/login''\<rparr>"
  by (simp add: res_redirect_def res0_def)

lemma unauthenticated_route:
  assumes "privileged (action r)" and "falsy_id (sessions s (sid r))"
  shows "route e r s = (s, \<lparr>status = 302, payload = Location ''/cms/login''\<rparr>)"
  using assms
  by (cases "action r")
     (simp_all add: privileged_def route_def requireAuth_def redirect_login)

text \<open>
  Claim C5. A request for the dashboard, the listing or the creation of a post whose
  session has no user id is answered by its route with a redirect to the login
  page, and the state is the one before the request. Through the whole application
  the answer is that redirect, or the 429 of a rate limiter before it, and users,
  sessions, posts and files are as before: no row is inserted and no file written.
\<close>

theorem unauthenticated_is_redirected:
  assumes "privileged (action r)" and "falsy_id (sessions s (sid r))"
  shows "route e r s = (s, \<lparr>status = 302, payload = Location ''/cms/login''\<rparr>)
       \<and> (snd (handle e r s) = \<lparr>status = 302, payload = Location ''/cms/login''\<rparr>
            \<or> snd (handle e r s) = too_many)
       \<and> users (fst (handle e r s)) = users s \<and> sessions (fst (handle e r s)) = sessions s
       \<and> posts (fst (handle e r s)) = posts s \<and> files (fst (handle e r s)) = files s"
proof -
  have "route e r s' = (s', \<lparr>status = 302, payload = Location ''/cms/login''\<rparr>)"
    if "sessions s' = sessions s" for s'
    using unauthenticated_route [of r s' e] assms that by simp
  then have "(snd (handle e r s) = \<lparr>status = 302, payload = Location ''/cms/login''\<rparr>
            \<or> snd (handle e r s) = too_many)
       \<and> users (fst (handle e r s)) = users s \<and> sessions (fst (handle e r s)) = sessions s
       \<and> posts (fst (handle e r s)) = posts s \<and> files (fst (handle e r s)) = files s"
    by (auto simp: handle_def Let_def split: prod.splits)
  with unauthenticated_route [OF assms] show ?thesis by simp
qed

theorem unauthenticated_is_redirected_witness:
  "route example_env \<lparr>client = 3, sid = 9, action = PostPosts hello_body\<rparr> example_state
     = (example_state, \<lparr>status = 302, payload = Location ''/cms/login''\<rparr>)
   \<and> posts (fst (handle example_env \<lparr>client = 3, sid = 9, action = PostPosts hello_body\<rparr>
        example_state)) = []
   \<and> files (fst (handle example_env \<lparr>client = 3, sid = 9, action = PostPosts hello_body\<rparr>
        example_state)) = Map.empty"
proof -
  have a: "privileged (action \<lparr>client = 3, sid = 9, action = PostPosts hello_body\<rparr>)"
    by (simp add: privileged_def)
  have b: "falsy_id (sessions example_state
      (sid \<lparr>client = 3, sid = 9, action = PostPosts hello_body\<rparr>))"
    by (simp add: falsy_id_def example_state_def)
  have c: "posts example_state = []" "files example_state = Map.empty"
    by (simp_all add: example_state_def)
  from unauthenticated_is_redirected [OF a b, of example_env] c show ?thesis by simp
qed

text \<open>
  Claim C8. A login with an unknown user name and a login with a known name and a
  wrong password get the same response, the redirect to \<open>/cms/login?error=1\<close>, and
  neither changes the state.
\<close>

theorem login_failure_uniform:
  assumes "find_user (users s1) (username_field b1) = None"
    and "find_user (users s2) (username_field b2) = Some u"
    and "password_field b2 = Some pw" and "\<not> bcrypt_compare e2 pw (password u)"
  shows "snd (login_handler e1 i1 b1 s1) = snd (login_handler e2 i2 b2 s2)
       \<and> snd (login_handler e1 i1 b1 s1) = \<lparr>status = 302, payload = Location ''/cms/login?error=1''\<rparr>
       \<and> fst (login_handler e1 i1 b1 s1) = s1
       \<and> fst (login_handler e2 i2 b2 s2) = s2"
  using assms by (simp add: login_handler_def res_redirect_def res_status_def res0_def)

theorem login_failure_uniform_witness:
  "snd (login_handler example_env 9
          \<lparr>username_field = Some ''nobody'', password_field = Some ''secret''\<rparr> example_state)
     = snd (login_handler later_env 9
          \<lparr>username_field = Some ''admin'', password_field = Some ''wrong''\<rparr> example_state)
   \<and> snd (login_handler example_env 9
          \<lparr>username_field = Some ''nobody'', password_field = Some ''secret''\<rparr> example_state)
     = \<lparr>status = 302, payload = Location ''/cms/login?error=1''\<rparr>
   \<and> fst (login_handler example_env 9
          \<lparr>username_field = Some ''nobody'', password_field = Some ''secret''\<rparr> example_state)
     = example_state
   \<and> fst (login_handler later_env 9
          \<lparr>username_field = Some ''admin'', password_field = Some ''wrong''\<rparr> example_state)
     = example_state"
proof -
  let ?u = "\<lparr>user_id = 1, username = ''admin'', password = ''bcrypt:secret''\<rparr>"
  have a: "find_user (users example_state)
      (username_field \<lparr>username_field = Some ''nobody'', password_field = Some ''secret''\<rparr>) = None"
    by (simp add: example_state_def)
  have b: "find_user (users example_state)
      (username_field \<lparr>username_field = Some ''admin'', password_field = Some ''wrong''\<rparr>) = Some ?u"
    by (simp add: example_state_def)
  have c: "password_field \<lparr>username_field = Some ''admin'', password_field = Some ''wrong''\<rparr>
      = Some ''wrong''" by simp
  have d: "\<not> bcrypt_compare later_env ''wrong'' (password ?u)"
    by (simp add: later_env_def example_env_def)
  show ?thesis by (rule login_failure_uniform [OF a b c d])
qed

section \<open>Rate limiting\<close>









end
